theory Spec2Isabelle
  imports Complex_Main "HOL-Library.AList" "HOL-Library.Char_ord" "HOL-Library.List_Lexorder"
begin

section \<open>Multi-source iteration (torchtnt/utils/data/iterators.py)\<close>

text \<open>
  The module combines several named data sources into one stream of selection records.
  Every class of the module is embedded as a record of its attributes, every method as a
  function from the state before the call to the outcome and the state after it.
  A raised exception is the \<open>Inl\<close> branch of the outcome; \<open>StopIteration\<close> is the
  end-of-sequence signal of the iterator protocol.  A method whose loops or recursion can
  run forever returns an \<open>option\<close>, and \<open>None\<close> is the call that never returns.
\<close>

subsection \<open>Exceptions, stopping mechanisms, sources\<close>

datatype exn =
    StopIteration
  | NotImplementedError
  | KeyError
  | IndexError
  | AssertionError
  | ValueError
  | DistError

datatype StoppingMechanism =
    ALL_DATASETS_EXHAUSTED
  | SMALLEST_DATASET_EXHAUSTED
  | RESTART_UNTIL_ALL_DATASETS_EXHAUSTED
  | WRAP_AROUND_UNTIL_KILLED

text \<open>
  A source (a dataloader or any iterable) is the finite list of the batches it yields;
  \<open>iter\<close> on it gives a handle positioned at its start.  A handle holds the batches
  still to come and counts the \<open>next\<close> calls it has received, so that "this handle was
  not queried" is a statement about the handle.  An exhausted handle stays exhausted.
\<close>

record 'a handle =
  pending :: "'a list"
  polls :: nat

definition iter_src :: "'a list \<Rightarrow> 'a handle" where
  "iter_src dl = \<lparr>pending = dl, polls = 0\<rparr>"

definition next_handle :: "'a handle \<Rightarrow> 'a option \<times> 'a handle" where
  "next_handle h =
     (case pending h of
        [] \<Rightarrow> (None, h\<lparr>polls := Suc (polls h)\<rparr>)
      | b # bs \<Rightarrow> (Some b, \<lparr>pending = bs, polls = Suc (polls h)\<rparr>))"

text \<open>
  A Python dict is an association list in insertion order with distinct keys:
  \<open>map_of\<close> reads a key, \<open>AList.update\<close> assigns one (in place when the key exists, at
  the end otherwise), \<open>map fst\<close> lists the keys.
\<close>

type_synonym 'a dataloaders = "(string \<times> 'a list) list"
type_synonym 'a iterators = "(string \<times> 'a handle) list"

definition make_iterators :: "'a dataloaders \<Rightarrow> 'a iterators" where
  "make_iterators dls = map (\<lambda>(name, dl). (name, iter_src dl)) dls"

text \<open>
  Indexing a list with a Python integer: a negative index counts from the end, an index
  out of range raises \<open>IndexError\<close> (the result \<open>None\<close>).
\<close>

definition py_index :: "'a list \<Rightarrow> int \<Rightarrow> 'a option" where
  "py_index xs i =
     (let n = int (length xs) in
      if 0 \<le> i \<and> i < n then Some (xs ! nat i)
      else if - n \<le> i \<and> i < 0 then Some (xs ! nat (n + i))
      else None)"

text \<open>
  \<open>itertools.cycle\<close> over a list: the state is the list rotated so that its head is
  the element \<open>next\<close> yields; over the empty list \<open>next\<close> raises \<open>StopIteration\<close>.
\<close>

fun cycle_next :: "string list \<Rightarrow> exn + string \<times> string list" where
  "cycle_next [] = Inl StopIteration"
| "cycle_next (k # ks) = Inr (k, ks @ [k])"

subsection \<open>RoundRobinIterator\<close>

record RoundRobin =
  rr_stopping_mechanism :: StoppingMechanism
  rr_iteration_order :: "string list option"

record 'a RoundRobinIterator =
  rr_strategy :: RoundRobin
  rr_individual_iterators :: "'a iterators"
  dataloader_cycle :: "string list"
  cur_dataloader :: string
  finished_dataloaders :: "string list"

text \<open>
  \<open>iteration_order or list(keys)\<close>: an absent or empty order falls back to the keys.
  \<open>round_robin_order[0]\<close> raises \<open>IndexError\<close> on an empty order.
\<close>

definition order_or_keys :: "string list option \<Rightarrow> string list \<Rightarrow> string list" where
  "order_or_keys ord keys = (case ord of None \<Rightarrow> keys | Some [] \<Rightarrow> keys | Some (k # ks) \<Rightarrow> k # ks)"

definition RoundRobinIterator_init ::
  "'a dataloaders \<Rightarrow> RoundRobin \<Rightarrow> exn + 'a RoundRobinIterator" where
  "RoundRobinIterator_init individual_dataloaders iteration_strategy =
     (if rr_stopping_mechanism iteration_strategy = WRAP_AROUND_UNTIL_KILLED
      then Inl NotImplementedError
      else
        let its = make_iterators individual_dataloaders;
            round_robin_order = order_or_keys (rr_iteration_order iteration_strategy) (map fst its)
        in case round_robin_order of
             [] \<Rightarrow> Inl IndexError
           | k # _ \<Rightarrow> Inr \<lparr>rr_strategy = iteration_strategy,
                          rr_individual_iterators = its,
                          dataloader_cycle = round_robin_order,
                          cur_dataloader = k,
                          finished_dataloaders = []\<rparr>)"

text \<open>
  Lines 174--176: \<open>cur = next(cycle)\<close>, then \<open>while cur in finished: cur = next(cycle)\<close>.
  The loop runs forever when every key of the cycle is finished.
\<close>

partial_function (option) next_unfinished ::
  "string list \<Rightarrow> string list \<Rightarrow> (exn + string \<times> string list) option" where
  "next_unfinished finished cyc =
     (case cycle_next cyc of
        Inl e \<Rightarrow> Some (Inl e)
      | Inr (k, cyc') \<Rightarrow>
          if k \<in> set finished then next_unfinished finished cyc' else Some (Inr (k, cyc')))"

declare next_unfinished.simps [code]

partial_function (option) RoundRobinIterator_next ::
  "'a RoundRobinIterator \<Rightarrow> ((exn + string \<times> 'a) \<times> 'a RoundRobinIterator) option" where
  "RoundRobinIterator_next self =
     (if length (finished_dataloaders self) = length (rr_individual_iterators self)
      then Some (Inl StopIteration, self)
      else
        case next_unfinished (finished_dataloaders self) (dataloader_cycle self) of
          None \<Rightarrow> None
        | Some (Inl e) \<Rightarrow> Some (Inl e, self)
        | Some (Inr (k, cyc)) \<Rightarrow>
            let self = self\<lparr>cur_dataloader := k, dataloader_cycle := cyc\<rparr> in
            case map_of (rr_individual_iterators self) k of
              None \<Rightarrow> Some (Inl KeyError, self)
            | Some h \<Rightarrow>
                (case next_handle h of
                   (Some b, h') \<Rightarrow>
                     Some (Inr (k, b),
                           self\<lparr>rr_individual_iterators :=
                                  AList.update k h' (rr_individual_iterators self)\<rparr>)
                 | (None, h') \<Rightarrow>
                     let self = self\<lparr>rr_individual_iterators :=
                                        AList.update k h' (rr_individual_iterators self)\<rparr> in
                     if rr_stopping_mechanism (rr_strategy self) = SMALLEST_DATASET_EXHAUSTED
                     then Some (Inl StopIteration, self)
                     else
                       let self = self\<lparr>finished_dataloaders := finished_dataloaders self @ [k]\<rparr> in
                       if length (finished_dataloaders self) = length (rr_individual_iterators self)
                       then Some (Inl StopIteration, self)
                       else RoundRobinIterator_next self))"

declare RoundRobinIterator_next.simps [code]

text \<open>
  \<open>state_dict\<close> and \<open>load_state_dict\<close>.  The test \<open>cur_dataloader not in
  self.dataloader_cycle\<close> is a membership test on the cycle iterator itself: it consumes the
  iterator up to and including the first element equal to the key, and on an endless cycle
  that lacks the key it never returns.  The first component of the result of
  \<open>load_state_dict\<close> tells whether the warning was logged.
\<close>

record rr_snapshot =
  sd_finished_dataloaders :: "string list"
  sd_cur_dataloader :: string

definition RoundRobinIterator_state_dict :: "'a RoundRobinIterator \<Rightarrow> rr_snapshot" where
  "RoundRobinIterator_state_dict self =
     \<lparr>sd_finished_dataloaders = finished_dataloaders self,
      sd_cur_dataloader = cur_dataloader self\<rparr>"

partial_function (option) cycle_contains ::
  "string \<Rightarrow> string list \<Rightarrow> (bool \<times> string list) option" where
  "cycle_contains key cyc =
     (case cycle_next cyc of
        Inl e \<Rightarrow> Some (False, cyc)
      | Inr (k, cyc') \<Rightarrow> if k = key then Some (True, cyc') else cycle_contains key cyc')"

declare cycle_contains.simps [code]

partial_function (option) advance_until ::
  "string \<Rightarrow> string \<Rightarrow> string list \<Rightarrow> (exn + string \<times> string list) option" where
  "advance_until key cur cyc =
     (if cur \<noteq> key
      then (case cycle_next cyc of
              Inl e \<Rightarrow> Some (Inl e)
            | Inr (k, cyc') \<Rightarrow> advance_until key k cyc')
      else Some (Inr (cur, cyc)))"

declare advance_until.simps [code]

definition RoundRobinIterator_load_state_dict ::
  "'a RoundRobinIterator \<Rightarrow> rr_snapshot \<Rightarrow> ((exn + bool) \<times> 'a RoundRobinIterator) option" where
  "RoundRobinIterator_load_state_dict self state_dict =
     (let self = self\<lparr>finished_dataloaders := sd_finished_dataloaders state_dict\<rparr>;
          key = sd_cur_dataloader state_dict
      in case cycle_contains key (dataloader_cycle self) of
           None \<Rightarrow> None
         | Some (False, cyc) \<Rightarrow> Some (Inr True, self\<lparr>dataloader_cycle := cyc\<rparr>)
         | Some (True, cyc) \<Rightarrow>
             (case advance_until key (cur_dataloader self) cyc of
                None \<Rightarrow> None
              | Some (Inl e) \<Rightarrow> Some (Inl e, self\<lparr>dataloader_cycle := cyc\<rparr>)
              | Some (Inr (k, cyc')) \<Rightarrow>
                  Some (Inr False, self\<lparr>cur_dataloader := k, dataloader_cycle := cyc'\<rparr>)))"

subsection \<open>Driving an iterator\<close>

text \<open>
  \<open>pull nxt n\<close> is the outcomes of \<open>n\<close> consecutive \<open>next\<close> calls; \<open>drain nxt\<close> is the
  caller's \<open>for\<close> loop: the records up to the first exception, that exception, and
  the state it leaves.
\<close>

fun pull :: "('s \<Rightarrow> ('o \<times> 's) option) \<Rightarrow> nat \<Rightarrow> 's \<Rightarrow> ('o list \<times> 's) option" where
  "pull nxt 0 s = Some ([], s)"
| "pull nxt (Suc n) s =
     (case nxt s of
        None \<Rightarrow> None
      | Some (out, s') \<Rightarrow>
          (case pull nxt n s' of
             None \<Rightarrow> None
           | Some (outs, s'') \<Rightarrow> Some (out # outs, s'')))"



subsection \<open>AllDatasetBatchesIterator\<close>

record 'a AllDatasetBatchesIterator =
  asb_individual_dataloaders :: "'a dataloaders"
  asb_stopping_mechanism :: StoppingMechanism
  asb_individual_iterators :: "'a iterators"
  asb_iterators_finished :: "string list"

definition AllDatasetBatchesIterator_init ::
  "'a dataloaders \<Rightarrow> StoppingMechanism \<Rightarrow> exn + 'a AllDatasetBatchesIterator" where
  "AllDatasetBatchesIterator_init individual_dataloaders stopping_mechanism =
     (if stopping_mechanism = WRAP_AROUND_UNTIL_KILLED
      then Inl NotImplementedError
      else Inr \<lparr>asb_individual_dataloaders = individual_dataloaders,
                asb_stopping_mechanism = stopping_mechanism,
                asb_individual_iterators = make_iterators individual_dataloaders,
                asb_iterators_finished = []\<rparr>)"

text \<open>
  The \<open>for\<close> loop of \<open>__next__\<close> over the keys still to visit, with the record built so
  far.  A raise leaves the loop with the state reached.
\<close>

fun asb_loop ::
  "string list \<Rightarrow> 'a AllDatasetBatchesIterator \<Rightarrow> (string \<times> 'a) list \<Rightarrow>
     (exn + (string \<times> 'a) list) \<times> 'a AllDatasetBatchesIterator" where
  "asb_loop [] self batch_dict = (Inr batch_dict, self)"
| "asb_loop (iterator # rest) self batch_dict =
     (case map_of (asb_individual_iterators self) iterator of
        None \<Rightarrow> (Inl KeyError, self)
      | Some h \<Rightarrow>
          (case next_handle h of
             (Some b, h') \<Rightarrow>
               asb_loop rest
                 (self\<lparr>asb_individual_iterators :=
                         AList.update iterator h' (asb_individual_iterators self)\<rparr>)
                 (AList.update iterator b batch_dict)
           | (None, h') \<Rightarrow>
               let self = self\<lparr>asb_individual_iterators :=
                                  AList.update iterator h' (asb_individual_iterators self)\<rparr> in
               if asb_stopping_mechanism self = SMALLEST_DATASET_EXHAUSTED
               then (Inl StopIteration, self)
               else if asb_stopping_mechanism self = RESTART_UNTIL_ALL_DATASETS_EXHAUSTED
               then
                 let self = (if iterator \<notin> set (asb_iterators_finished self)
                             then self\<lparr>asb_iterators_finished :=
                                         asb_iterators_finished self @ [iterator]\<rparr>
                             else self) in
                 if length (asb_iterators_finished self) = length (asb_individual_iterators self)
                 then (Inl StopIteration, self)
                 else
                   (case map_of (asb_individual_dataloaders self) iterator of
                      None \<Rightarrow> (Inl KeyError, self)
                    | Some dl \<Rightarrow>
                        (case next_handle (iter_src dl) of
                           (Some b, h'') \<Rightarrow>
                             asb_loop rest
                               (self\<lparr>asb_individual_iterators :=
                                       AList.update iterator h'' (asb_individual_iterators self)\<rparr>)
                               (AList.update iterator b batch_dict)
                         | (None, h'') \<Rightarrow>
                             (Inl StopIteration,
                              self\<lparr>asb_individual_iterators :=
                                      AList.update iterator h'' (asb_individual_iterators self)\<rparr>)))
               else asb_loop rest self batch_dict))"

definition AllDatasetBatchesIterator_next ::
  "'a AllDatasetBatchesIterator \<Rightarrow>
     (exn + (string \<times> 'a) list) \<times> 'a AllDatasetBatchesIterator" where
  "AllDatasetBatchesIterator_next self =
     (case asb_loop (map fst (asb_individual_iterators self)) self [] of
        (Inl e, self') \<Rightarrow> (Inl e, self')
      | (Inr batch_dict, self') \<Rightarrow>
          if length batch_dict = 0 then (Inl StopIteration, self') else (Inr batch_dict, self'))"

subsection \<open>InOrderIterator\<close>

record 'a InOrderIterator =
  io_individual_dataloaders :: "'a dataloaders"
  iteration_order :: "string list"
  cur_iter :: "'a handle"
  cur_iterator_idx :: int
  cur_iterator :: string
  num_iterators :: int
  io_iterators_finished :: int

definition InOrderIterator_init ::
  "'a dataloaders \<Rightarrow> string list option \<Rightarrow> exn + 'a InOrderIterator" where
  "InOrderIterator_init individual_dataloaders order =
     (let iteration_order = order_or_keys order (map fst individual_dataloaders)
      in case iteration_order of
           [] \<Rightarrow> Inl IndexError
         | k # _ \<Rightarrow>
             (case map_of individual_dataloaders k of
                None \<Rightarrow> Inl KeyError
              | Some dl \<Rightarrow>
                  Inr \<lparr>io_individual_dataloaders = individual_dataloaders,
                       iteration_order = iteration_order,
                       cur_iter = iter_src dl,
                       cur_iterator_idx = 0,
                       cur_iterator = k,
                       num_iterators = int (length iteration_order),
                       io_iterators_finished = 0\<rparr>))"

text \<open>
  The two statements \<open>self.cur_iterator = self.iteration_order[self.iterators_finished]\<close>
  and \<open>self.cur_iter = iter(self.individual_dataloaders[self.cur_iterator])\<close>, which
  \<open>__next__\<close> runs after a restore (lines 530--531) and after an exhaustion (543--544).
\<close>

definition io_open :: "'a InOrderIterator \<Rightarrow> exn option \<times> 'a InOrderIterator" where
  "io_open self =
     (case py_index (iteration_order self) (io_iterators_finished self) of
        None \<Rightarrow> (Some IndexError, self)
      | Some k \<Rightarrow>
          let self = self\<lparr>cur_iterator := k\<rparr> in
          case map_of (io_individual_dataloaders self) (cur_iterator self) of
            None \<Rightarrow> (Some KeyError, self)
          | Some dl \<Rightarrow> (None, self\<lparr>cur_iter := iter_src dl\<rparr>))"

function InOrderIterator_next ::
  "'a InOrderIterator \<Rightarrow> (exn + string \<times> 'a) \<times> 'a InOrderIterator" where
  "InOrderIterator_next self =
     (if io_iterators_finished self = num_iterators self
      then (Inl StopIteration, self)
      else
        case (if io_iterators_finished self \<noteq> cur_iterator_idx self
              then io_open (self\<lparr>cur_iterator_idx := io_iterators_finished self\<rparr>)
              else (None, self)) of
          (Some e, self) \<Rightarrow> (Inl e, self)
        | (None, self) \<Rightarrow>
            (case next_handle (cur_iter self) of
               (Some b, h') \<Rightarrow> (Inr (cur_iterator self, b), self\<lparr>cur_iter := h'\<rparr>)
             | (None, h') \<Rightarrow>
                 let self = self\<lparr>cur_iter := h',
                                  io_iterators_finished := io_iterators_finished self + 1\<rparr> in
                 if io_iterators_finished self = num_iterators self
                 then (Inl StopIteration, self)
                 else
                   (case io_open (self\<lparr>cur_iterator_idx := cur_iterator_idx self + 1\<rparr>) of
                      (Some e, self) \<Rightarrow> (Inl e, self)
                    | (None, self) \<Rightarrow> InOrderIterator_next self)))"
  by pat_completeness auto

termination
proof (relation "measure (\<lambda>self.
          nat (int (length (iteration_order self)) - io_iterators_finished self))")
  show "wf (measure (\<lambda>self::'a InOrderIterator.
              nat (int (length (iteration_order self)) - io_iterators_finished self)))"
    by simp
next
  fix self :: "'a InOrderIterator" and x y x2 xa ya xb xc yb
  assume opened: "(x, y) = (if io_iterators_finished self \<noteq> cur_iterator_idx self
                     then io_open (self\<lparr>cur_iterator_idx := io_iterators_finished self\<rparr>)
                     else (None, self))"
    and "x = None"
    and xb: "xb = y\<lparr>cur_iter := ya, io_iterators_finished := io_iterators_finished y + 1\<rparr>"
    and again: "(xc, yb) = io_open (xb\<lparr>cur_iterator_idx := cur_iterator_idx xb + 1\<rparr>)"
    and "xc = None"
  from opened \<open>x = None\<close> have y: "iteration_order y = iteration_order self"
      "io_iterators_finished y = io_iterators_finished self"
    by (auto simp: io_open_def Let_def split: if_splits option.splits)
  from again \<open>xc = None\<close> have yb: "iteration_order yb = iteration_order xb"
      "io_iterators_finished yb = io_iterators_finished xb"
      "io_iterators_finished xb < int (length (iteration_order xb))"
    by (auto simp: io_open_def py_index_def Let_def split: if_splits option.splits)
  with y xb show "(yb, self) \<in> measure (\<lambda>self.
      nat (int (length (iteration_order self)) - io_iterators_finished self))"
    by simp
qed

declare InOrderIterator_next.simps [simp del]

record io_snapshot =
  sd_iterators_finished :: int
  sd_cur_iterator :: string

definition InOrderIterator_state_dict :: "'a InOrderIterator \<Rightarrow> io_snapshot" where
  "InOrderIterator_state_dict self =
     \<lparr>sd_iterators_finished = io_iterators_finished self,
      sd_cur_iterator = cur_iterator self\<rparr>"

text \<open>The first component tells whether the warning was logged and the restore skipped.\<close>

definition InOrderIterator_load_state_dict ::
  "'a InOrderIterator \<Rightarrow> io_snapshot \<Rightarrow> bool \<times> 'a InOrderIterator" where
  "InOrderIterator_load_state_dict self state_dict =
     (if sd_cur_iterator state_dict \<notin> set (iteration_order self)
         \<or> sd_iterators_finished state_dict > int (length (iteration_order self))
      then (True, self)
      else (False, self\<lparr>io_iterators_finished := sd_iterators_finished state_dict\<rparr>))"

subsection \<open>RandomizedBatchSamplerIterator\<close>

text \<open>
  What the iterator reaches outside itself.  The generator of \<open>random\<close> is an arbitrary
  sequence of 53-bit integers read at a moving position: \<open>random.random()\<close> is such an
  integer divided by \<open>2 ^ 53\<close>, a number in \<open>[0, 1)\<close>.  Of \<open>torch.distributed\<close> the model
  keeps the two flags the code tests, what \<open>new_group\<close> does in this process (raise, or
  return a group), the index rank 0 sends at each broadcast, and counters of the calls
  made.
\<close>

record env =
  rand :: "nat \<Rightarrow> nat"
  rand_pos :: nat
  dist_is_available :: bool
  dist_is_initialized :: bool
  new_group_raises :: "exn option"
  rank0_key_idx :: "nat \<Rightarrow> nat"
  new_group_calls :: nat
  broadcast_calls :: nat

definition random_unit :: "env \<Rightarrow> real" where
  "random_unit w = real (rand w (rand_pos w) mod 9007199254740992) / 9007199254740992"

text \<open>\<open>itertools.accumulate\<close>: the running sums of the weights.\<close>

fun accumulate :: "real list \<Rightarrow> real list" where
  "accumulate [] = []"
| "accumulate (x # xs) = x # map ((+) x) (accumulate xs)"

text \<open>\<open>bisect.bisect_right(a, x, lo, hi)\<close>, the binary search of the standard library.\<close>

function bisect_right :: "real list \<Rightarrow> real \<Rightarrow> nat \<Rightarrow> nat \<Rightarrow> nat" where
  "bisect_right a x lo hi =
     (if lo < hi
      then let mid = (lo + hi) div 2
           in if x < a ! mid then bisect_right a x lo mid else bisect_right a x (mid + 1) hi
      else lo)"
  by pat_completeness auto

termination
  by (relation "measure (\<lambda>(a, x, lo, hi). hi - lo)") auto

declare bisect_right.simps [simp del]

text \<open>
  \<open>random.choices(population, weights)[0]\<close>, as the standard library computes it.
  Without weights the pick is \<open>population[floor(random() * n)]\<close>, which on an empty
  population raises \<open>IndexError\<close> after the generator has been read.  With weights the
  running sums are taken first: their number must be that of the population
  (\<open>ValueError\<close>), their last element is read (\<open>IndexError\<close> on an empty list) and must
  be greater than zero (\<open>ValueError\<close>), and the pick is found by bisection of the running
  sums at \<open>random() * total\<close>.  Floats are taken as reals, so that a total is always
  finite.
\<close>

definition random_choices ::
  "env \<Rightarrow> string list \<Rightarrow> real list option \<Rightarrow> (exn + string) \<times> env" where
  "random_choices w population ws =
     (let n = length population in
      case ws of
        None \<Rightarrow>
          (if n = 0 then (Inl IndexError, w\<lparr>rand_pos := Suc (rand_pos w)\<rparr>)
           else (Inr (population ! nat \<lfloor>random_unit w * real n\<rfloor>),
                 w\<lparr>rand_pos := Suc (rand_pos w)\<rparr>))
      | Some weights \<Rightarrow>
          let cum_weights = accumulate weights in
          if length cum_weights \<noteq> n then (Inl ValueError, w)
          else if n = 0 then (Inl IndexError, w)
          else
            let total = last cum_weights in
            if total \<le> 0 then (Inl ValueError, w)
            else (Inr (population ! bisect_right cum_weights (random_unit w * total) 0 (n - 1)),
                  w\<lparr>rand_pos := Suc (rand_pos w)\<rparr>))"

definition dist_new_group :: "env \<Rightarrow> (exn + nat) \<times> env" where
  "dist_new_group w =
     (let w = w\<lparr>new_group_calls := Suc (new_group_calls w)\<rparr>
      in case new_group_raises w of
           Some e \<Rightarrow> (Inl e, w)
         | None \<Rightarrow> (Inr (new_group_calls w), w))"

definition dist_broadcast :: "env \<Rightarrow> nat \<Rightarrow> nat \<times> env" where
  "dist_broadcast w key_idx =
     (rank0_key_idx w (broadcast_calls w), w\<lparr>broadcast_calls := Suc (broadcast_calls w)\<rparr>)"

record RandomizedBatchSampler =
  weights :: "(string \<times> real) list option"
  rbs_stopping_mechanism :: StoppingMechanism
  enforce_same_loader_across_ranks :: bool

record 'a RandomizedBatchSamplerIterator =
  rbs_individual_dataloaders :: "'a dataloaders"
  rbs_individual_iterators :: "'a iterators"
  iterator_names :: "string list"
  iterator_weights :: "real list option"
  iterator_is_exhausted :: "bool list"
  stopping_mechanism :: StoppingMechanism
  enforce_same_loader :: bool
  iterator_names_dict :: "(string \<times> nat) list"
  process_group :: "nat option"
  rbs_iterators_finished :: "string list"

definition RandomizedBatchSamplerIterator_init ::
  "env \<Rightarrow> 'a dataloaders \<Rightarrow> RandomizedBatchSampler \<Rightarrow>
     (exn + 'a RandomizedBatchSamplerIterator) \<times> env" where
  "RandomizedBatchSamplerIterator_init w individual_dataloaders iteration_strategy =
     (let names = sort (map fst individual_dataloaders);
          self = \<lparr>rbs_individual_dataloaders = individual_dataloaders,
                  rbs_individual_iterators = make_iterators individual_dataloaders,
                  iterator_names = names,
                  iterator_weights = None,
                  iterator_is_exhausted = replicate (length names) False,
                  stopping_mechanism = rbs_stopping_mechanism iteration_strategy,
                  enforce_same_loader = enforce_same_loader_across_ranks iteration_strategy,
                  iterator_names_dict = [],
                  process_group = None,
                  rbs_iterators_finished = []\<rparr>
      in case (case weights iteration_strategy of
                 None \<Rightarrow> Inr None
               | Some ws \<Rightarrow>
                   if \<not> set names \<subseteq> set (map fst ws) then Inl AssertionError
                   else (case those (map (map_of ws) names) of
                           None \<Rightarrow> Inl KeyError
                         | Some fs \<Rightarrow> Inr (Some fs))) of
           Inl e \<Rightarrow> (Inl e, w)
         | Inr iws \<Rightarrow>
             let self = self\<lparr>iterator_weights := iws\<rparr> in
             if enforce_same_loader self
             then
               (case dist_new_group w of
                  (Inl e, w) \<Rightarrow> (Inl e, w)
                | (Inr g, w) \<Rightarrow>
                    (Inr (self\<lparr>iterator_names_dict := zip names [0..<length names],
                               process_group := Some g\<rparr>), w))
             else (Inr self, w))"

text \<open>Lines 407--425: the population and the weights handed to \<open>random.choices\<close>.\<close>

definition rbs_candidates ::
  "'a RandomizedBatchSamplerIterator \<Rightarrow> string list \<times> real list option" where
  "rbs_candidates self =
     (case iterator_weights self of
        Some iws \<Rightarrow>
          if stopping_mechanism self \<noteq> WRAP_AROUND_UNTIL_KILLED
          then (map fst (filter (\<lambda>(name, exhausted). \<not> exhausted)
                          (zip (iterator_names self) (iterator_is_exhausted self))),
                Some (map fst (filter (\<lambda>(weight, exhausted). \<not> exhausted)
                                (zip iws (iterator_is_exhausted self)))))
          else (iterator_names self, Some iws)
      | None \<Rightarrow> (iterator_names self, None))"

text \<open>Lines 429--436: the broadcast of the selected key, when it is enabled.\<close>

definition rbs_same_loader ::
  "env \<Rightarrow> 'a RandomizedBatchSamplerIterator \<Rightarrow> string \<Rightarrow> (exn + string) \<times> env" where
  "rbs_same_loader w self selected_key =
     (if enforce_same_loader self \<and> dist_is_available w \<and> dist_is_initialized w
      then
        (case map_of (iterator_names_dict self) selected_key of
           None \<Rightarrow> (Inl KeyError, w)
         | Some key_idx \<Rightarrow>
             (case dist_broadcast w key_idx of
                (idx, w) \<Rightarrow>
                  if idx < length (iterator_names self)
                  then (Inr (iterator_names self ! idx), w)
                  else (Inl IndexError, w)))
      else (Inr selected_key, w))"

text \<open>\<open>list.index\<close>: the first position of the key, \<open>ValueError\<close> when it is absent.\<close>

fun index_of :: "string list \<Rightarrow> string \<Rightarrow> nat option" where
  "index_of [] key = None"
| "index_of (k # ks) key = (if k = key then Some 0 else map_option Suc (index_of ks key))"

text \<open>Lines 450--453 and 455--458: re-create the iterator of a source and draw from it.\<close>

definition rbs_restart ::
  "env \<Rightarrow> 'a RandomizedBatchSamplerIterator \<Rightarrow> string \<Rightarrow>
     (exn + string \<times> 'a) \<times> env \<times> 'a RandomizedBatchSamplerIterator" where
  "rbs_restart w self selected_key =
     (case map_of (rbs_individual_dataloaders self) selected_key of
        None \<Rightarrow> (Inl KeyError, w, self)
      | Some dl \<Rightarrow>
          (case next_handle (iter_src dl) of
             (Some b, h') \<Rightarrow>
               (Inr (selected_key, b), w,
                self\<lparr>rbs_individual_iterators :=
                       AList.update selected_key h' (rbs_individual_iterators self)\<rparr>)
           | (None, h') \<Rightarrow>
               (Inl StopIteration, w,
                self\<lparr>rbs_individual_iterators :=
                       AList.update selected_key h' (rbs_individual_iterators self)\<rparr>)))"

partial_function (option) RandomizedBatchSamplerIterator_next ::
  "env \<times> 'a RandomizedBatchSamplerIterator \<Rightarrow>
     ((exn + string \<times> 'a) \<times> env \<times> 'a RandomizedBatchSamplerIterator) option" where
  "RandomizedBatchSamplerIterator_next ws =
     (case ws of (w, self) \<Rightarrow>
      if stopping_mechanism self = SMALLEST_DATASET_EXHAUSTED
         \<and> list_ex (\<lambda>b. b) (iterator_is_exhausted self)
      then Some (Inl StopIteration, w, self)
      else if stopping_mechanism self = ALL_DATASETS_EXHAUSTED
         \<and> list_all (\<lambda>b. b) (iterator_is_exhausted self)
      then Some (Inl StopIteration, w, self)
      else if stopping_mechanism self = RESTART_UNTIL_ALL_DATASETS_EXHAUSTED
         \<and> length (rbs_iterators_finished self) = length (rbs_individual_iterators self)
      then Some (Inl StopIteration, w, self)
      else
        case random_choices w (fst (rbs_candidates self)) (snd (rbs_candidates self)) of
          (Inl e, w) \<Rightarrow> Some (Inl e, w, self)
        | (Inr selected_key, w) \<Rightarrow>
            (case rbs_same_loader w self selected_key of
               (Inl e, w) \<Rightarrow> Some (Inl e, w, self)
             | (Inr selected_key, w) \<Rightarrow>
                 (case map_of (rbs_individual_iterators self) selected_key of
                    None \<Rightarrow> Some (Inl KeyError, w, self)
                  | Some h \<Rightarrow>
                      (case next_handle h of
                         (Some batch, h') \<Rightarrow>
                           Some (Inr (selected_key, batch), w,
                                 self\<lparr>rbs_individual_iterators :=
                                   AList.update selected_key h' (rbs_individual_iterators self)\<rparr>)
                       | (None, h') \<Rightarrow>
                           let self = self\<lparr>rbs_individual_iterators :=
                                 AList.update selected_key h' (rbs_individual_iterators self)\<rparr> in
                           if stopping_mechanism self = RESTART_UNTIL_ALL_DATASETS_EXHAUSTED
                           then
                             let self = (if selected_key \<notin> set (rbs_iterators_finished self)
                                         then self\<lparr>rbs_iterators_finished :=
                                                rbs_iterators_finished self @ [selected_key]\<rparr>
                                         else self) in
                             if length (rbs_iterators_finished self)
                                  = length (rbs_individual_iterators self)
                             then Some (Inl StopIteration, w, self)
                             else Some (rbs_restart w self selected_key)
                           else if stopping_mechanism self = WRAP_AROUND_UNTIL_KILLED
                           then Some (rbs_restart w self selected_key)
                           else
                             (case index_of (iterator_names self) selected_key of
                                None \<Rightarrow> Some (Inl ValueError, w, self)
                              | Some selected_index \<Rightarrow>
                                  RandomizedBatchSamplerIterator_next
                                    (w, self\<lparr>iterator_is_exhausted :=
                                          (iterator_is_exhausted self)[selected_index := True]\<rparr>))))))"

declare RandomizedBatchSamplerIterator_next.simps [code]

subsection \<open>Notions used in the statements and proofs\<close>

text \<open>
  A well-formed All-Sources-Batches state, as the constructor builds it over a dict and
  \<open>__next__\<close> keeps it: distinct keys, the same keys for sources and iterators, a
  finished list without repetition that holds keys only.
\<close>

definition asb_wf :: "'a AllDatasetBatchesIterator \<Rightarrow> bool" where
  "asb_wf self \<longleftrightarrow>
     distinct (map fst (asb_individual_iterators self))
   \<and> map fst (asb_individual_dataloaders self) = map fst (asb_individual_iterators self)
   \<and> distinct (asb_iterators_finished self)
   \<and> set (asb_iterators_finished self) \<subseteq> set (map fst (asb_individual_iterators self))"

text \<open>A key whose handle has no batch left.\<close>

definition exhausted_at :: "'a iterators \<Rightarrow> string \<Rightarrow> bool" where
  "exhausted_at its k \<longleftrightarrow> (case map_of its k of None \<Rightarrow> False | Some h \<Rightarrow> pending h = [])"

text \<open>\<open>if iterator not in self.iterators_finished: self.iterators_finished.append(iterator)\<close>\<close>

definition mark_finished :: "string \<Rightarrow> string list \<Rightarrow> string list" where
  "mark_finished k fin = (if k \<notin> set fin then fin @ [k] else fin)"

text \<open>
  A key at which the loop of \<open>__next__\<close> raises \<open>StopIteration\<close> when it reaches it, and
  what an iteration of the loop at key \<open>k\<close> leaves unchanged.
\<close>

definition stops_at :: "'a AllDatasetBatchesIterator \<Rightarrow> string \<Rightarrow> bool" where
  "stops_at self k \<longleftrightarrow>
     exhausted_at (asb_individual_iterators self) k
   \<and> (asb_stopping_mechanism self = SMALLEST_DATASET_EXHAUSTED
      \<or> asb_stopping_mechanism self = RESTART_UNTIL_ALL_DATASETS_EXHAUSTED
        \<and> (length (asb_iterators_finished self) = length (asb_individual_iterators self)
           \<or> map_of (asb_individual_dataloaders self) k = Some []))"

definition asb_frame ::
  "string \<Rightarrow> 'a AllDatasetBatchesIterator \<Rightarrow> 'a AllDatasetBatchesIterator \<Rightarrow> bool" where
  "asb_frame k self self1 \<longleftrightarrow>
     asb_wf self1
   \<and> map fst (asb_individual_iterators self1) = map fst (asb_individual_iterators self)
   \<and> asb_stopping_mechanism self1 = asb_stopping_mechanism self
   \<and> asb_individual_dataloaders self1 = asb_individual_dataloaders self
   \<and> (\<forall>j. j \<noteq> k \<longrightarrow> map_of (asb_individual_iterators self1) j
                        = map_of (asb_individual_iterators self) j)"

subsection \<open>Example inputs\<close>

text \<open>
  The sources of the examples of the module's docstrings, \<open>a\<close> with one batch and \<open>b\<close>
  with three, and a process in which \<open>torch.distributed\<close> is not initialised.
\<close>

definition example_sources :: "nat dataloaders" where
  "example_sources = [(''a'', [0]), (''b'', [10, 11, 12])]"

definition example_env :: env where
  "example_env = \<lparr>rand = (\<lambda>n. 0), rand_pos = 0, dist_is_available = False,
     dist_is_initialized = False, new_group_raises = Some DistError,
     rank0_key_idx = (\<lambda>n. 0), new_group_calls = 0, broadcast_calls = 0\<rparr>"







section \<open>Properties\<close>

subsection \<open>Construction with an unsupported stopping mechanism\<close>

text \<open>
  Claim C5.  A Round-Robin iterator and an All-Sources-Batches iterator cannot be built
  with the stopping mechanism \<open>WRAP_AROUND_UNTIL_KILLED\<close>: for any sources (and any
  iteration order) the constructor raises \<open>NotImplementedError\<close>.  The outcome carries no
  iterator, so no \<open>next\<close> call can follow and no batch has been drawn.
\<close>

theorem wrap_around_rejected_at_construction:
  "RoundRobinIterator_init dls
     \<lparr>rr_stopping_mechanism = WRAP_AROUND_UNTIL_KILLED, rr_iteration_order = ord\<rparr>
     = Inl NotImplementedError
   \<and> AllDatasetBatchesIterator_init dls WRAP_AROUND_UNTIL_KILLED = Inl NotImplementedError"
  by (simp add: RoundRobinIterator_init_def AllDatasetBatchesIterator_init_def)

subsection \<open>Restoring a Round-Robin snapshot whose key is unknown\<close>

text \<open>
  The membership test on the cycle iterator returns \<open>True\<close> only for a key of the cycle
  and \<open>False\<close> only on an empty cycle; on a non-empty cycle without the key it has no
  result.
\<close>

lemma cycle_contains_Some:
  assumes "cycle_contains key cyc = Some y"
  shows "(fst y \<longrightarrow> key \<in> set cyc) \<and> (\<not> fst y \<longrightarrow> cyc = [])"
proof (rule cycle_contains.raw_induct
    [where P = "\<lambda>key cyc y. (fst y \<longrightarrow> key \<in> set cyc) \<and> (\<not> fst y \<longrightarrow> cyc = [])", OF _ assms],
    goal_cases)
  case (1 cycle_contains key cyc y)
  show ?case
  proof (cases cyc)
    case Nil
    with 1(2) show ?thesis by auto
  next
    case (Cons k ks)
    show ?thesis
    proof (cases "k = key")
      case True
      with Cons 1(2) show ?thesis by auto
    next
      case False
      with Cons 1(2) have "cycle_contains key (ks @ [k]) = Some y" by simp
      from 1(1)[OF this] Cons show ?thesis by auto
    qed
  qed
qed

lemma cycle_contains_diverges:
  assumes "key \<notin> set cyc" and "cyc \<noteq> []"
  shows "cycle_contains key cyc = None"
proof (cases "cycle_contains key cyc")
  case None
  then show ?thesis .
next
  case (Some y)
  from cycle_contains_Some[OF this] assms show ?thesis by (cases "fst y") auto
qed

text \<open>
  Claim C4.  The claim: restoring a Round-Robin snapshot whose current key is not among
  the configured keys returns normally with a warning and leaves the cursor of the fresh
  iterator untouched.  What \<open>load_state_dict\<close> does: the membership test
  \<open>cur_dataloader not in self.dataloader_cycle\<close> runs on the endless cycle iterator, so
  for a key the cycle does not hold the call never returns; the warning branch is not
  reached.  The cycle of a constructed iterator is never empty.
\<close>

theorem restore_unknown_key_never_returns:
  assumes "sd_cur_dataloader state_dict \<notin> set (dataloader_cycle self)"
    and "dataloader_cycle self \<noteq> []"
  shows "RoundRobinIterator_load_state_dict self state_dict = None"
  using cycle_contains_diverges[OF assms]
  by (simp add: RoundRobinIterator_load_state_dict_def Let_def)

theorem restore_unknown_key_never_returns_witness:
  "(case RoundRobinIterator_init [(''a'', [1::nat])]
           \<lparr>rr_stopping_mechanism = ALL_DATASETS_EXHAUSTED, rr_iteration_order = None\<rparr> of
      Inl e \<Rightarrow> False
    | Inr self \<Rightarrow>
        dataloader_cycle self = [''a''] \<and>
        RoundRobinIterator_load_state_dict self
          \<lparr>sd_finished_dataloaders = [], sd_cur_dataloader = ''z''\<rparr> = None)"
proof -
  define self :: "nat RoundRobinIterator" where "self = \<lparr>rr_strategy = \<lparr>rr_stopping_mechanism = ALL_DATASETS_EXHAUSTED, rr_iteration_order = None\<rparr>,
     rr_individual_iterators = [(''a'', iter_src [1])], dataloader_cycle = [''a''], cur_dataloader = ''a'', finished_dataloaders = []\<rparr>"
  have i: "RoundRobinIterator_init [(''a'', [1::nat])]
           \<lparr>rr_stopping_mechanism = ALL_DATASETS_EXHAUSTED, rr_iteration_order = None\<rparr> = Inr self"
    by (simp add: RoundRobinIterator_init_def make_iterators_def order_or_keys_def self_def)
  have "RoundRobinIterator_load_state_dict self
          \<lparr>sd_finished_dataloaders = [], sd_cur_dataloader = ''z''\<rparr> = None"
    by (rule restore_unknown_key_never_returns) (simp_all add: self_def)
  with i show ?thesis by (simp add: self_def)
qed

subsection \<open>Association lists\<close>

lemma update_keys_same: "k \<in> set (map fst al) \<Longrightarrow> map fst (AList.update k v al) = map fst al"
  by (simp add: update_keys)

lemma map_of_in_keys: "map_of al k = Some v \<Longrightarrow> k \<in> set (map fst al)"
  by (metis map_of_eq_None_iff option.distinct(1) set_map)

lemma in_keys_map_of: "k \<in> set (map fst al) \<Longrightarrow> \<exists>v. map_of al k = Some v"
  by (metis map_of_eq_None_iff not_Some_eq set_map)

lemma length_update_same: "k \<in> set (map fst al) \<Longrightarrow> length (AList.update k v al) = length al"
  by (metis length_map update_keys_same)

lemma full_finished:
  assumes "distinct fin" "set fin \<subseteq> set ks" "distinct ks" "length fin = length ks"
  shows "set fin = set ks"
  by (metis assms card_subset_eq distinct_card List.finite_set)

subsection \<open>The cursor of the Round-Robin iterator\<close>



lemma rr_next_all_finished:
  "length (finished_dataloaders self) = length (rr_individual_iterators self) \<Longrightarrow>
     RoundRobinIterator_next self = Some (Inl StopIteration, self)"
  by (subst RoundRobinIterator_next.simps) simp

lemma rr_stop_stable:
  assumes "RoundRobinIterator_next self = Some y"
  shows "rr_stopping_mechanism (rr_strategy self) \<noteq> SMALLEST_DATASET_EXHAUSTED \<longrightarrow>
         fst y = Inl StopIteration \<longrightarrow>
         RoundRobinIterator_next (snd y) = Some (Inl StopIteration, snd y)"
proof (rule RoundRobinIterator_next.raw_induct
    [where P = "\<lambda>self y. rr_stopping_mechanism (rr_strategy self) \<noteq> SMALLEST_DATASET_EXHAUSTED \<longrightarrow>
         fst y = Inl StopIteration \<longrightarrow>
         RoundRobinIterator_next (snd y) = Some (Inl StopIteration, snd y)", OF _ assms], goal_cases)
  case (1 f self y)
  show ?case
  proof (cases "length (finished_dataloaders self) = length (rr_individual_iterators self)")
    case True
    with 1(2) have "y = (Inl StopIteration, self)" by simp
    with True show ?thesis by (simp add: rr_next_all_finished)
  next
    case False
    note ne = this
    show ?thesis
    proof (cases "next_unfinished (finished_dataloaders self) (dataloader_cycle self)")
      case None
      with ne 1(2) show ?thesis by simp
    next
      case (Some r)
      show ?thesis
      proof (cases r)
        case (Inl e)
        with Some ne 1(2) have "y = (Inl e, self)" by simp
        moreover have "RoundRobinIterator_next self = Some (Inl e, self)"
          using Some ne Inl by (subst RoundRobinIterator_next.simps) simp
        ultimately show ?thesis by simp
      next
        case (Inr p)
        obtain k cyc where p: "p = (k, cyc)" by (cases p)
        show ?thesis using 1(2) ne Some Inr p
          by (auto simp: Let_def next_handle_def rr_next_all_finished
                split: option.splits list.splits if_splits dest!: 1(1))
      qed
    qed
  qed
qed

subsection \<open>One iteration of the All-Sources-Batches loop\<close>

lemma asb_loop_hit:
  "map_of (asb_individual_iterators self) k = Some h \<Longrightarrow> pending h = b # bs \<Longrightarrow>
   asb_loop (k # rest) self bd =
     asb_loop rest
       (self\<lparr>asb_individual_iterators :=
          AList.update k \<lparr>pending = bs, polls = Suc (polls h)\<rparr> (asb_individual_iterators self)\<rparr>)
       (AList.update k b bd)"
  by (simp add: next_handle_def)

lemma asb_loop_miss_smallest:
  "map_of (asb_individual_iterators self) k = Some h \<Longrightarrow> pending h = [] \<Longrightarrow>
   asb_stopping_mechanism self = SMALLEST_DATASET_EXHAUSTED \<Longrightarrow>
   asb_loop (k # rest) self bd =
     (Inl StopIteration,
      self\<lparr>asb_individual_iterators :=
          AList.update k (h\<lparr>polls := Suc (polls h)\<rparr>) (asb_individual_iterators self)\<rparr>)"
  by (simp add: next_handle_def)

lemma asb_loop_miss_skip:
  "map_of (asb_individual_iterators self) k = Some h \<Longrightarrow> pending h = [] \<Longrightarrow>
   asb_stopping_mechanism self \<noteq> SMALLEST_DATASET_EXHAUSTED \<Longrightarrow>
   asb_stopping_mechanism self \<noteq> RESTART_UNTIL_ALL_DATASETS_EXHAUSTED \<Longrightarrow>
   asb_loop (k # rest) self bd =
     asb_loop rest
      (self\<lparr>asb_individual_iterators :=
          AList.update k (h\<lparr>polls := Suc (polls h)\<rparr>) (asb_individual_iterators self)\<rparr>) bd"
  by (simp add: next_handle_def)

lemma asb_loop_miss_restart:
  "map_of (asb_individual_iterators self) k = Some h \<Longrightarrow> pending h = [] \<Longrightarrow>
   asb_stopping_mechanism self = RESTART_UNTIL_ALL_DATASETS_EXHAUSTED \<Longrightarrow>
   asb_loop (k # rest) self bd =
     (let self1 = self\<lparr>asb_individual_iterators :=
                    AList.update k (h\<lparr>polls := Suc (polls h)\<rparr>) (asb_individual_iterators self),
                    asb_iterators_finished := mark_finished k (asb_iterators_finished self)\<rparr>
      in if length (asb_iterators_finished self1) = length (asb_individual_iterators self1)
         then (Inl StopIteration, self1)
         else case map_of (asb_individual_dataloaders self) k of
                None \<Rightarrow> (Inl KeyError, self1)
              | Some [] \<Rightarrow> (Inl StopIteration,
                   self1\<lparr>asb_individual_iterators :=
                      AList.update k \<lparr>pending = [], polls = 1\<rparr> (asb_individual_iterators self1)\<rparr>)
              | Some (b # bs) \<Rightarrow>
                  asb_loop rest
                    (self1\<lparr>asb_individual_iterators :=
                      AList.update k \<lparr>pending = bs, polls = 1\<rparr> (asb_individual_iterators self1)\<rparr>)
                    (AList.update k b bd))"
  by (auto simp add: next_handle_def iter_src_def Let_def mark_finished_def split: option.splits list.splits)


lemma wf_update:
  assumes "asb_wf self" "k \<in> set (map fst (asb_individual_iterators self))"
  shows "asb_frame k self (self\<lparr>asb_individual_iterators :=
            AList.update k h' (asb_individual_iterators self)\<rparr>)"
  using assms by (auto simp: asb_frame_def asb_wf_def update_keys distinct_update update_conv')

lemma wf_update_mark:
  assumes "asb_wf self" "k \<in> set (map fst (asb_individual_iterators self))"
  shows "asb_frame k self (self\<lparr>asb_individual_iterators :=
            AList.update k h' (asb_individual_iterators self),
            asb_iterators_finished := mark_finished k (asb_iterators_finished self)\<rparr>)"
  using assms by (auto simp: asb_frame_def asb_wf_def update_keys distinct_update update_conv' mark_finished_def)

lemma asb_step:
  assumes wf: "asb_wf self" and h: "map_of (asb_individual_iterators self) k = Some h"
  shows "(\<exists>self1. asb_loop (k # rest) self bd = (Inl StopIteration, self1)
            \<and> asb_frame k self self1 \<and> stops_at self1 k)
       \<or> (\<not> stops_at self k
          \<and> (\<exists>self1 bd1. asb_loop (k # rest) self bd = asb_loop rest self1 bd1
                \<and> asb_frame k self self1
                \<and> (\<forall>j. j \<noteq> k \<longrightarrow> stops_at self j \<longrightarrow> stops_at self1 j)
                \<and> (bd1 = bd \<and> exhausted_at (asb_individual_iterators self1) k
                      \<and> asb_stopping_mechanism self \<noteq> SMALLEST_DATASET_EXHAUSTED
                      \<and> asb_stopping_mechanism self \<noteq> RESTART_UNTIL_ALL_DATASETS_EXHAUSTED
                   \<or> (\<exists>b. bd1 = AList.update k b bd))))"
proof -
  from h have kin: "k \<in> set (map fst (asb_individual_iterators self))" by (rule map_of_in_keys)
  show ?thesis
  proof (cases "pending h")
    case (Cons b bs)
    let ?s1 = "self\<lparr>asb_individual_iterators :=
          AList.update k \<lparr>pending = bs, polls = Suc (polls h)\<rparr> (asb_individual_iterators self)\<rparr>"
    have "asb_loop (k # rest) self bd = asb_loop rest ?s1 (AList.update k b bd)"
      by (rule asb_loop_hit[OF h Cons])
    moreover have fr: "asb_frame k self ?s1" by (rule wf_update[OF wf kin])
    moreover have "\<not> stops_at self k" using h Cons by (simp add: stops_at_def exhausted_at_def)
    moreover have "\<forall>j. j \<noteq> k \<longrightarrow> stops_at self j \<longrightarrow> stops_at ?s1 j"
      using kin by (auto simp: stops_at_def exhausted_at_def update_conv' length_update_same)
    ultimately show ?thesis by blast
  next
    case Nil
    let ?h' = "h\<lparr>polls := Suc (polls h)\<rparr>"
    consider (S) "asb_stopping_mechanism self = SMALLEST_DATASET_EXHAUSTED"
      | (R) "asb_stopping_mechanism self = RESTART_UNTIL_ALL_DATASETS_EXHAUSTED"
      | (A) "asb_stopping_mechanism self \<noteq> SMALLEST_DATASET_EXHAUSTED"
            "asb_stopping_mechanism self \<noteq> RESTART_UNTIL_ALL_DATASETS_EXHAUSTED"
      by blast
    then show ?thesis
    proof cases
      case S
      let ?s1 = "self\<lparr>asb_individual_iterators := AList.update k ?h' (asb_individual_iterators self)\<rparr>"
      have "asb_loop (k # rest) self bd = (Inl StopIteration, ?s1)"
        by (rule asb_loop_miss_smallest[OF h Nil S])
      moreover have "asb_frame k self ?s1" by (rule wf_update[OF wf kin])
      moreover have "stops_at ?s1 k" using S Nil
        by (simp add: stops_at_def exhausted_at_def update_conv')
      ultimately show ?thesis by blast
    next
      case A
      let ?s1 = "self\<lparr>asb_individual_iterators := AList.update k ?h' (asb_individual_iterators self)\<rparr>"
      have "asb_loop (k # rest) self bd = asb_loop rest ?s1 bd"
        by (rule asb_loop_miss_skip[OF h Nil A])
      moreover have "asb_frame k self ?s1" by (rule wf_update[OF wf kin])
      moreover have "\<not> stops_at self k" using A by (simp add: stops_at_def)
      moreover have "\<forall>j. j \<noteq> k \<longrightarrow> stops_at self j \<longrightarrow> stops_at ?s1 j"
        using A by (simp add: stops_at_def)
      moreover have "exhausted_at (asb_individual_iterators ?s1) k" using Nil
        by (simp add: exhausted_at_def update_conv')
      ultimately show ?thesis using A by blast
    next
      case R
      let ?s1 = "self\<lparr>asb_individual_iterators :=
                    AList.update k ?h' (asb_individual_iterators self),
                    asb_iterators_finished := mark_finished k (asb_iterators_finished self)\<rparr>"
      have fr1: "asb_frame k self ?s1" by (rule wf_update_mark[OF wf kin])
      have ex1: "exhausted_at (asb_individual_iterators ?s1) k" using Nil
        by (simp add: exhausted_at_def update_conv')
      note unf = asb_loop_miss_restart[OF h Nil R, of rest bd]
      show ?thesis
      proof (cases "length (asb_iterators_finished ?s1) = length (asb_individual_iterators ?s1)")
        case True
        then have "asb_loop (k # rest) self bd = (Inl StopIteration, ?s1)"
          using unf by (simp add: Let_def)
        moreover have "stops_at ?s1 k" using ex1 R True by (simp add: stops_at_def)
        ultimately show ?thesis using fr1 by blast
      next
        case False
        from wf kin have "\<exists>dl. map_of (asb_individual_dataloaders self) k = Some dl"
          by (intro in_keys_map_of) (simp add: asb_wf_def)
        then obtain dl where dl: "map_of (asb_individual_dataloaders self) k = Some dl" ..
        have notfull: "length (asb_iterators_finished self) \<noteq> length (asb_individual_iterators self)"
        proof
          assume full: "length (asb_iterators_finished self) = length (asb_individual_iterators self)"
          with wf have "set (asb_iterators_finished self) = set (map fst (asb_individual_iterators self))"
            by (intro full_finished) (simp_all add: asb_wf_def)
          with kin have "mark_finished k (asb_iterators_finished self) = asb_iterators_finished self"
            by (simp add: mark_finished_def)
          with full False kin show False by (simp add: length_update_same)
        qed
        show ?thesis
        proof (cases dl)
          case Nil
          let ?s2 = "?s1\<lparr>asb_individual_iterators :=
                      AList.update k \<lparr>pending = [], polls = 1\<rparr> (asb_individual_iterators ?s1)\<rparr>"
          have "asb_loop (k # rest) self bd = (Inl StopIteration, ?s2)"
            using unf False dl Nil by (simp add: Let_def)
          moreover have "asb_frame k self ?s2"
            using fr1 kin by (auto simp: asb_frame_def asb_wf_def update_keys distinct_update update_conv')
          moreover have "stops_at ?s2 k" using R dl Nil
            by (simp add: stops_at_def exhausted_at_def update_conv')
          ultimately show ?thesis by blast
        next
          case (Cons b bs)
          let ?s2 = "?s1\<lparr>asb_individual_iterators :=
                      AList.update k \<lparr>pending = bs, polls = 1\<rparr> (asb_individual_iterators ?s1)\<rparr>"
          have "asb_loop (k # rest) self bd = asb_loop rest ?s2 (AList.update k b bd)"
            using unf False dl Cons by (simp add: Let_def)
          moreover have "asb_frame k self ?s2"
            using fr1 kin by (auto simp: asb_frame_def asb_wf_def update_keys distinct_update update_conv')
          moreover have "\<not> stops_at self k" using R dl Cons notfull by (simp add: stops_at_def)
          moreover have "\<forall>j. j \<noteq> k \<longrightarrow> stops_at self j \<longrightarrow> stops_at ?s2 j"
            using R notfull by (auto simp: stops_at_def exhausted_at_def update_conv')
          ultimately show ?thesis by blast
        qed
      qed
    qed
  qed
qed

lemma update_not_Nil: "AList.update k v al \<noteq> []" "[] \<noteq> AList.update k v al"
  by (cases al; auto)+

lemma asb_step_cases:
  assumes "asb_wf self" and "map_of (asb_individual_iterators self) k = Some h"
  obtains (stop) self1 where "asb_loop (k # rest) self bd = (Inl StopIteration, self1)"
      "asb_frame k self self1" "stops_at self1 k"
  | (go) self1 bd1 where "\<not> stops_at self k"
      "asb_loop (k # rest) self bd = asb_loop rest self1 bd1"
      "asb_frame k self self1"
      "\<forall>j. j \<noteq> k \<longrightarrow> stops_at self j \<longrightarrow> stops_at self1 j"
      "bd1 = bd \<and> exhausted_at (asb_individual_iterators self1) k
          \<and> asb_stopping_mechanism self \<noteq> SMALLEST_DATASET_EXHAUSTED
          \<and> asb_stopping_mechanism self \<noteq> RESTART_UNTIL_ALL_DATASETS_EXHAUSTED
       \<or> (\<exists>b. bd1 = AList.update k b bd)"
  using asb_step[OF assms, of rest bd] by blast

lemma asb_loop_stops:
  "asb_wf self \<Longrightarrow> set ks \<subseteq> set (map fst (asb_individual_iterators self)) \<Longrightarrow>
   k \<in> set ks \<Longrightarrow> stops_at self k \<Longrightarrow>
   fst (asb_loop ks self bd) = Inl StopIteration"
proof (induction ks arbitrary: self bd)
  case Nil
  then show ?case by simp
next
  case (Cons j rest)
  from Cons.prems(2) obtain h where h: "map_of (asb_individual_iterators self) j = Some h"
    using in_keys_map_of[of j "asb_individual_iterators self"] by auto
  show ?case
  proof (rule asb_step_cases[OF Cons.prems(1) h, of rest bd], goal_cases)
    case (1 self1)
    then show ?thesis by simp
  next
    case (2 self1 bd1)
    from 2(1) Cons.prems(4) have "k \<noteq> j" by auto
    with Cons.prems(3) have "k \<in> set rest" by simp
    moreover from 2(4) \<open>k \<noteq> j\<close> Cons.prems(4) have "stops_at self1 k" by simp
    moreover from 2(3) have "asb_wf self1"
      and "map fst (asb_individual_iterators self1) = map fst (asb_individual_iterators self)"
      by (simp_all add: asb_frame_def)
    ultimately have "fst (asb_loop rest self1 bd1) = Inl StopIteration"
      using Cons.prems(2) by (intro Cons.IH) auto
    with 2(2) show ?thesis by simp
  qed
qed

lemma asb_loop_props:
  "asb_loop ks self bd = (r, self') \<Longrightarrow> asb_wf self \<Longrightarrow> distinct ks \<Longrightarrow>
   set ks \<subseteq> set (map fst (asb_individual_iterators self)) \<Longrightarrow>
   asb_wf self'
   \<and> map fst (asb_individual_iterators self') = map fst (asb_individual_iterators self)
   \<and> asb_stopping_mechanism self' = asb_stopping_mechanism self
   \<and> asb_individual_dataloaders self' = asb_individual_dataloaders self
   \<and> (\<forall>j. j \<notin> set ks \<longrightarrow> map_of (asb_individual_iterators self') j
                            = map_of (asb_individual_iterators self) j)
   \<and> (r = Inl StopIteration \<longrightarrow> (\<exists>k. k \<in> set ks \<and> stops_at self' k))
   \<and> (r = Inr [] \<longrightarrow> bd = [] \<and> list_all (exhausted_at (asb_individual_iterators self')) ks
         \<and> (ks \<noteq> [] \<longrightarrow> asb_stopping_mechanism self \<noteq> SMALLEST_DATASET_EXHAUSTED
               \<and> asb_stopping_mechanism self \<noteq> RESTART_UNTIL_ALL_DATASETS_EXHAUSTED))"
proof (induction ks arbitrary: self bd)
  case Nil
  then show ?case by auto
next
  case (Cons j rest)
  from Cons.prems(4) obtain h where h: "map_of (asb_individual_iterators self) j = Some h"
    using in_keys_map_of[of j "asb_individual_iterators self"] by auto
  show ?case
  proof (rule asb_step_cases[OF Cons.prems(2) h, of rest bd], goal_cases)
    case (1 self1)
    with Cons.prems(1) have "r = Inl StopIteration" "self' = self1" by simp_all
    with 1 show ?thesis by (auto simp: asb_frame_def)
  next
    case (2 self1 bd1)
    from 2(3) have wf1: "asb_wf self1"
      and keys1: "map fst (asb_individual_iterators self1) = map fst (asb_individual_iterators self)"
      and mode1: "asb_stopping_mechanism self1 = asb_stopping_mechanism self"
      and dls1: "asb_individual_dataloaders self1 = asb_individual_dataloaders self"
      and fr1: "\<forall>i. i \<noteq> j \<longrightarrow> map_of (asb_individual_iterators self1) i
                        = map_of (asb_individual_iterators self) i"
      by (simp_all add: asb_frame_def)
    from 2(2) Cons.prems(1) have run: "asb_loop rest self1 bd1 = (r, self')" by simp
    from Cons.prems(3) have dr: "distinct rest" and jr: "j \<notin> set rest" by simp_all
    from Cons.prems(4) keys1 have sub: "set rest \<subseteq> set (map fst (asb_individual_iterators self1))"
      by auto
    note IH = Cons.IH[OF run wf1 dr sub]
    from IH jr have same_j: "map_of (asb_individual_iterators self') j
        = map_of (asb_individual_iterators self1) j" by blast
    have "r = Inr [] \<longrightarrow> bd = [] \<and> list_all (exhausted_at (asb_individual_iterators self')) (j # rest)
         \<and> asb_stopping_mechanism self \<noteq> SMALLEST_DATASET_EXHAUSTED
         \<and> asb_stopping_mechanism self \<noteq> RESTART_UNTIL_ALL_DATASETS_EXHAUSTED"
    proof
      assume r: "r = Inr []"
      with IH have bd1: "bd1 = []" and ex: "list_all (exhausted_at (asb_individual_iterators self')) rest"
        by simp_all
      have "bd1 \<noteq> [] \<or> (bd1 = bd \<and> exhausted_at (asb_individual_iterators self1) j
            \<and> asb_stopping_mechanism self \<noteq> SMALLEST_DATASET_EXHAUSTED
            \<and> asb_stopping_mechanism self \<noteq> RESTART_UNTIL_ALL_DATASETS_EXHAUSTED)"
        using 2(5) by (auto simp: update_not_Nil)
      with bd1 have "bd = []" and "exhausted_at (asb_individual_iterators self1) j"
        and "asb_stopping_mechanism self \<noteq> SMALLEST_DATASET_EXHAUSTED"
        and "asb_stopping_mechanism self \<noteq> RESTART_UNTIL_ALL_DATASETS_EXHAUSTED" by simp_all
      with ex same_j show "bd = [] \<and> list_all (exhausted_at (asb_individual_iterators self')) (j # rest)
         \<and> asb_stopping_mechanism self \<noteq> SMALLEST_DATASET_EXHAUSTED
         \<and> asb_stopping_mechanism self \<noteq> RESTART_UNTIL_ALL_DATASETS_EXHAUSTED"
        by (simp add: exhausted_at_def)
    qed
    moreover have "\<forall>i. i \<notin> set (j # rest) \<longrightarrow> map_of (asb_individual_iterators self') i
                            = map_of (asb_individual_iterators self) i"
      using IH fr1 by simp
    moreover have "r = Inl StopIteration \<longrightarrow> (\<exists>k. k \<in> set (j # rest) \<and> stops_at self' k)"
      using IH by auto
    ultimately show ?thesis using IH keys1 mode1 dls1 by simp
  qed
qed

lemma asb_loop_all_exhausted:
  "list_all (exhausted_at (asb_individual_iterators self)) ks \<Longrightarrow> distinct ks \<Longrightarrow>
   asb_stopping_mechanism self \<noteq> SMALLEST_DATASET_EXHAUSTED \<Longrightarrow>
   asb_stopping_mechanism self \<noteq> RESTART_UNTIL_ALL_DATASETS_EXHAUSTED \<Longrightarrow>
   fst (asb_loop ks self bd) = Inr bd"
proof (induction ks arbitrary: self)
  case Nil
  then show ?case by simp
next
  case (Cons j rest)
  from Cons.prems(1) obtain h where h: "map_of (asb_individual_iterators self) j = Some h"
    and e: "pending h = []"
    by (auto simp: exhausted_at_def split: option.splits)
  let ?s1 = "self\<lparr>asb_individual_iterators :=
          AList.update j (h\<lparr>polls := Suc (polls h)\<rparr>) (asb_individual_iterators self)\<rparr>"
  have "list_all (exhausted_at (asb_individual_iterators ?s1)) rest"
    using Cons.prems(1,2) by (auto simp: list_all_iff exhausted_at_def update_conv')
  then have "fst (asb_loop rest ?s1 bd) = Inr bd"
    using Cons.prems by (intro Cons.IH) simp_all
  then show ?case
    using asb_loop_miss_skip[OF h e Cons.prems(3,4), of rest bd] by simp
qed

lemma asb_stop_stable:
  assumes "AllDatasetBatchesIterator_next self = (Inl StopIteration, self')" and wf: "asb_wf self"
  shows "fst (AllDatasetBatchesIterator_next self') = Inl StopIteration \<and> asb_wf self'"
proof -
  let ?ks = "map fst (asb_individual_iterators self)"
  obtain r s where loop: "asb_loop ?ks self [] = (r, s)" by (cases "asb_loop ?ks self []")
  from wf have dk: "distinct ?ks" by (simp add: asb_wf_def)
  note P = asb_loop_props[OF loop wf dk subset_refl]
  from assms(1) loop have s: "s = self'" and r: "r = Inl StopIteration \<or> r = Inr []"
    by (auto simp: AllDatasetBatchesIterator_next_def split: sum.splits if_splits)
  from P s have wf': "asb_wf self'"
    and keys': "map fst (asb_individual_iterators self') = ?ks"
    and mode': "asb_stopping_mechanism self' = asb_stopping_mechanism self" by simp_all
  from r have "fst (asb_loop ?ks self' []) = Inl StopIteration \<or> fst (asb_loop ?ks self' []) = Inr []"
  proof
    assume "r = Inl StopIteration"
    with P s obtain k where "k \<in> set ?ks" "stops_at self' k" by auto
    then have "fst (asb_loop ?ks self' []) = Inl StopIteration"
      using wf' keys' by (intro asb_loop_stops[where k = k]) simp_all
    then show ?thesis ..
  next
    assume r: "r = Inr []"
    show ?thesis
    proof (cases "?ks = []")
      case True
      then show ?thesis by simp
    next
      case False
      with P r s mode' have "fst (asb_loop ?ks self' []) = Inr []"
        by (intro asb_loop_all_exhausted dk) simp_all
      then show ?thesis ..
    qed
  qed
  then have "fst (AllDatasetBatchesIterator_next self') = Inl StopIteration"
    by (auto simp: AllDatasetBatchesIterator_next_def keys' split: prod.splits sum.splits)
  with wf' show ?thesis by simp
qed

lemma asb_init_wf:
  "distinct (map fst dls) \<Longrightarrow> AllDatasetBatchesIterator_init dls m = Inr self \<Longrightarrow> asb_wf self"
  by (auto simp: AllDatasetBatchesIterator_init_def asb_wf_def make_iterators_def comp_def
        case_prod_unfold split: if_splits)

subsection \<open>End of sequence of the In-Order and Weighted-Sampler iterators\<close>

lemma io_next_all_finished:
  "io_iterators_finished self = num_iterators self \<Longrightarrow>
     InOrderIterator_next self = (Inl StopIteration, self)"
  by (subst InOrderIterator_next.simps) simp

lemma io_open_keeps:
  "io_open self = (r, self') \<Longrightarrow>
     io_iterators_finished self' = io_iterators_finished self \<and>
     num_iterators self' = num_iterators self \<and>
     iteration_order self' = iteration_order self \<and>
     io_individual_dataloaders self' = io_individual_dataloaders self \<and>
     cur_iterator_idx self' = cur_iterator_idx self"
  by (auto simp: io_open_def Let_def split: if_splits option.splits)

lemma io_open_error: "io_open self = (Some e, self') \<Longrightarrow> e \<noteq> StopIteration"
  by (auto simp: io_open_def Let_def split: if_splits option.splits)

lemma io_stop_stable:
  "InOrderIterator_next self = (Inl StopIteration, self') \<Longrightarrow>
     InOrderIterator_next self' = (Inl StopIteration, self')"
proof (induction self rule: InOrderIterator_next.induct)
  case (1 self)
  show ?case
  proof (cases "io_iterators_finished self = num_iterators self")
    case True
    with 1(2) have "self' = self" by (subst (asm) InOrderIterator_next.simps) simp
    with True show ?thesis by (simp add: io_next_all_finished)
  next
    case False
    obtain x y where xy: "(x, y) = (if io_iterators_finished self \<noteq> cur_iterator_idx self
          then io_open (self\<lparr>cur_iterator_idx := io_iterators_finished self\<rparr>)
          else (None, self))"
      by (metis surj_pair)
    show ?thesis
    proof (cases x)
      case (Some e)
      with xy have "e \<noteq> StopIteration" by (auto split: if_splits dest: io_open_error[OF sym])
      with 1(2) False xy[symmetric] Some show ?thesis
        by (subst (asm) InOrderIterator_next.simps) simp
    next
      case None
      obtain xa ya where h: "(xa, ya) = next_handle (cur_iter y)" by (metis surj_pair)
      show ?thesis
      proof (cases xa)
        case (Some b)
        with 1(2) False xy[symmetric] None h[symmetric] show ?thesis
          by (subst (asm) InOrderIterator_next.simps) simp
      next
        case xaNone: None
        define xb where "xb = y\<lparr>cur_iter := ya,
             io_iterators_finished := io_iterators_finished y + 1\<rparr>"
        show ?thesis
        proof (cases "io_iterators_finished xb = num_iterators xb")
          case True
          with 1(2) False xy[symmetric] None h[symmetric] xaNone have "self' = xb"
            by (subst (asm) InOrderIterator_next.simps) (simp add: xb_def Let_def)
          with True show ?thesis by (simp add: io_next_all_finished)
        next
          case nf: False
          obtain xc yb where o: "(xc, yb) = io_open (xb\<lparr>cur_iterator_idx := cur_iterator_idx xb + 1\<rparr>)"
            by (metis surj_pair)
          show ?thesis
          proof (cases xc)
            case (Some e)
            with o have "e \<noteq> StopIteration" by (auto dest: io_open_error[OF sym])
            with 1(2) False xy[symmetric] None h[symmetric] xaNone nf o[symmetric] Some
            show ?thesis
              by (subst (asm) InOrderIterator_next.simps) (simp add: xb_def Let_def)
          next
            case xcNone: None
            from 1(2) False xy[symmetric] None h[symmetric] xaNone nf o[symmetric] xcNone
            have "InOrderIterator_next yb = (Inl StopIteration, self')"
              by (subst (asm) InOrderIterator_next.simps) (simp add: xb_def Let_def)
            with 1(1)[OF False xy None h xaNone xb_def nf o xcNone] show ?thesis .
          qed
        qed
      qed
    qed
  qed
qed

lemma rbs_next_ended:
  "(stopping_mechanism self = SMALLEST_DATASET_EXHAUSTED \<and> list_ex (\<lambda>b. b) (iterator_is_exhausted self))
   \<or> (stopping_mechanism self = ALL_DATASETS_EXHAUSTED \<and> list_all (\<lambda>b. b) (iterator_is_exhausted self))
   \<or> (stopping_mechanism self = RESTART_UNTIL_ALL_DATASETS_EXHAUSTED
        \<and> length (rbs_iterators_finished self) = length (rbs_individual_iterators self)) \<Longrightarrow>
   RandomizedBatchSamplerIterator_next (w, self) = Some (Inl StopIteration, w, self)"
  by (subst RandomizedBatchSamplerIterator_next.simps) auto

lemma random_choices_error: "random_choices w p ws = (Inl e, w') \<Longrightarrow> e \<noteq> StopIteration"
  by (auto simp: random_choices_def Let_def split: if_splits option.splits)

lemma rbs_same_loader_error: "rbs_same_loader w self k = (Inl e, w') \<Longrightarrow> e \<noteq> StopIteration"
  by (auto simp: rbs_same_loader_def dist_broadcast_def split: if_splits option.splits)

lemma rbs_stop_stable:
  assumes "RandomizedBatchSamplerIterator_next ws = Some y"
  shows "stopping_mechanism (snd ws) = ALL_DATASETS_EXHAUSTED
           \<or> stopping_mechanism (snd ws) = SMALLEST_DATASET_EXHAUSTED \<longrightarrow>
         fst y = Inl StopIteration \<longrightarrow>
         RandomizedBatchSamplerIterator_next (snd y) = Some (Inl StopIteration, snd y)"
proof (rule RandomizedBatchSamplerIterator_next.raw_induct
    [where P = "\<lambda>ws y. stopping_mechanism (snd ws) = ALL_DATASETS_EXHAUSTED
           \<or> stopping_mechanism (snd ws) = SMALLEST_DATASET_EXHAUSTED \<longrightarrow>
         fst y = Inl StopIteration \<longrightarrow>
         RandomizedBatchSamplerIterator_next (snd y) = Some (Inl StopIteration, snd y)",
     OF _ assms], goal_cases)
  case (1 f ws y)
  obtain w self where ws: "ws = (w, self)" by (cases ws)
  show ?case using 1(2) unfolding ws
    by (auto simp: Let_def next_handle_def rbs_next_ended
          split: option.splits list.splits if_splits prod.splits sum.splits
          dest!: 1(1) random_choices_error rbs_same_loader_error)
qed

subsection \<open>The coordination group when distributed is not initialised\<close>

text \<open>
  Claim C7.  The claim: with \<open>enforce_same_loader_across_ranks\<close> enabled and
  \<open>torch.distributed\<close> not initialised, the Weighted-Sampler iterator still constructs,
  no coordination group is created and every \<open>next\<close> call samples locally.
  What the code does: \<open>__next__\<close> guards the broadcast with \<open>dist.is_initialized()\<close>, so a
  call makes no broadcast and keeps the locally sampled key; \<open>__init__\<close> has no such guard
  and calls \<open>dist.new_group\<close> whenever the option is enabled, whatever the state of
  \<open>torch.distributed\<close>, so that a \<open>new_group\<close> that raises makes the constructor raise.
\<close>

theorem construction_requests_group_unguarded:
  assumes "enforce_same_loader_across_ranks strat" and "weights strat = None"
  shows "new_group_calls (snd (RandomizedBatchSamplerIterator_init w dls strat))
           = Suc (new_group_calls w)
       \<and> (new_group_raises w = Some e \<longrightarrow>
            fst (RandomizedBatchSamplerIterator_init w dls strat) = Inl e)
       \<and> (\<not> dist_is_initialized w \<longrightarrow>
            rbs_same_loader w self selected_key = (Inr selected_key, w))"
  using assms
  by (auto simp: RandomizedBatchSamplerIterator_init_def dist_new_group_def Let_def
        rbs_same_loader_def split: option.splits)

theorem construction_requests_group_unguarded_witness:
  "\<not> dist_is_initialized example_env
   \<and> RandomizedBatchSamplerIterator_init example_env example_sources
        \<lparr>weights = None, rbs_stopping_mechanism = ALL_DATASETS_EXHAUSTED,
         enforce_same_loader_across_ranks = True\<rparr>
       = (Inl DistError, example_env\<lparr>new_group_calls := 1\<rparr>)"
proof -
  let ?strat = "\<lparr>weights = None, rbs_stopping_mechanism = ALL_DATASETS_EXHAUSTED,
         enforce_same_loader_across_ranks = True\<rparr>"
  let ?r = "RandomizedBatchSamplerIterator_init example_env example_sources ?strat"
  have w: "snd ?r = example_env\<lparr>new_group_calls := new_group_calls (snd ?r)\<rparr>"
    by (simp add: RandomizedBatchSamplerIterator_init_def dist_new_group_def example_env_def)
  note c = construction_requests_group_unguarded[of ?strat example_env example_sources DistError]
  have "new_group_calls (snd ?r) = 1"
    using c[THEN conjunct1] by (simp add: example_env_def)
  moreover have "fst ?r = Inl DistError"
    using c[THEN conjunct2, THEN conjunct1] by (simp add: example_env_def)
  ultimately have "new_group_calls (snd ?r) = 1" and "fst ?r = Inl DistError" .
  with w have "?r = (Inl DistError, example_env\<lparr>new_group_calls := 1\<rparr>)"
    by (metis prod.collapse)
  then show ?thesis by (simp add: example_env_def)
qed

subsection \<open>Stability of the end of the sequence\<close>

lemma pull_stable:
  assumes step: "\<And>s. Q s \<Longrightarrow> \<exists>s'. nxt s = Some (Inl StopIteration, s') \<and> Q s'"
  shows "Q s \<Longrightarrow> \<exists>s'. pull nxt n s = Some (replicate n (Inl StopIteration), s') \<and> Q s'"
proof (induction n arbitrary: s)
  case 0
  then show ?case by simp
next
  case (Suc n)
  from step[OF Suc.prems] obtain s1 where s1: "nxt s = Some (Inl StopIteration, s1)" "Q s1" by blast
  from Suc.IH[OF s1(2)] obtain s2 where "pull nxt n s1 = Some (replicate n (Inl StopIteration), s2)" "Q s2"
    by blast
  with s1 show ?case by simp
qed

text \<open>
  After a \<open>next\<close> call that raised \<open>StopIteration\<close>, every number \<open>n\<close> of further calls
  raises \<open>StopIteration\<close> \<open>n\<close> times: for the Round-Robin iterator under any stopping
  mechanism other than \<open>SMALLEST_DATASET_EXHAUSTED\<close>, for the All-Sources-Batches iterator
  in a well-formed state, for the In-Order iterator, and for the Weighted-Sampler iterator
  under \<open>ALL_DATASETS_EXHAUSTED\<close> and \<open>SMALLEST_DATASET_EXHAUSTED\<close>.
\<close>

lemma end_of_sequence_stable_elsewhere:
  "(RoundRobinIterator_next rr = Some (Inl StopIteration, rr') \<longrightarrow>
      rr_stopping_mechanism (rr_strategy rr) \<noteq> SMALLEST_DATASET_EXHAUSTED \<longrightarrow>
      pull RoundRobinIterator_next n rr' = Some (replicate n (Inl StopIteration), rr'))
 \<and> (AllDatasetBatchesIterator_next asb = (Inl StopIteration, asb') \<longrightarrow> asb_wf asb \<longrightarrow>
      (\<exists>asb''. pull (Some \<circ> AllDatasetBatchesIterator_next) n asb'
                 = Some (replicate n (Inl StopIteration), asb'')))
 \<and> (InOrderIterator_next io = (Inl StopIteration, io') \<longrightarrow>
      pull (Some \<circ> InOrderIterator_next) n io' = Some (replicate n (Inl StopIteration), io'))
 \<and> (RandomizedBatchSamplerIterator_next (w, rbs) = Some (Inl StopIteration, w', rbs') \<longrightarrow>
      stopping_mechanism rbs = ALL_DATASETS_EXHAUSTED
        \<or> stopping_mechanism rbs = SMALLEST_DATASET_EXHAUSTED \<longrightarrow>
      pull RandomizedBatchSamplerIterator_next n (w', rbs')
        = Some (replicate n (Inl StopIteration), w', rbs'))"
proof (intro conjI impI)
  assume "RoundRobinIterator_next rr = Some (Inl StopIteration, rr')"
    and "rr_stopping_mechanism (rr_strategy rr) \<noteq> SMALLEST_DATASET_EXHAUSTED"
  from rr_stop_stable[OF this(1)] this(2)
  have fp: "RoundRobinIterator_next rr' = Some (Inl StopIteration, rr')" by simp
  have "\<exists>s'. pull RoundRobinIterator_next n rr' = Some (replicate n (Inl StopIteration), s') \<and> s' = rr'"
    by (rule pull_stable[where Q = "\<lambda>s. s = rr'"]) (simp_all add: fp)
  then show "pull RoundRobinIterator_next n rr' = Some (replicate n (Inl StopIteration), rr')"
    by simp
next
  assume stop: "AllDatasetBatchesIterator_next asb = (Inl StopIteration, asb')" and wf: "asb_wf asb"
  let ?Q = "\<lambda>s. asb_wf s \<and> fst (AllDatasetBatchesIterator_next s) = Inl StopIteration"
  have "\<exists>s'. pull (Some \<circ> AllDatasetBatchesIterator_next) n asb'
            = Some (replicate n (Inl StopIteration), s') \<and> ?Q s'"
  proof (rule pull_stable[where Q = ?Q])
    fix s assume Q: "?Q s"
    obtain s' where s': "AllDatasetBatchesIterator_next s = (Inl StopIteration, s')"
      using Q by (cases "AllDatasetBatchesIterator_next s") auto
    from asb_stop_stable[OF s'] Q s'
    show "\<exists>s'. (Some \<circ> AllDatasetBatchesIterator_next) s = Some (Inl StopIteration, s') \<and> ?Q s'"
      by simp
  next
    from asb_stop_stable[OF stop wf] show "?Q asb'" by simp
  qed
  then show "\<exists>asb''. pull (Some \<circ> AllDatasetBatchesIterator_next) n asb'
                 = Some (replicate n (Inl StopIteration), asb'')" by blast
next
  assume "InOrderIterator_next io = (Inl StopIteration, io')"
  from io_stop_stable[OF this]
  have fp: "InOrderIterator_next io' = (Inl StopIteration, io')" .
  have "\<exists>s'. pull (Some \<circ> InOrderIterator_next) n io' = Some (replicate n (Inl StopIteration), s') \<and> s' = io'"
    by (rule pull_stable[where Q = "\<lambda>s. s = io'"]) (simp_all add: fp)
  then show "pull (Some \<circ> InOrderIterator_next) n io' = Some (replicate n (Inl StopIteration), io')"
    by simp
next
  assume a: "RandomizedBatchSamplerIterator_next (w, rbs) = Some (Inl StopIteration, w', rbs')"
    and m: "stopping_mechanism rbs = ALL_DATASETS_EXHAUSTED
        \<or> stopping_mechanism rbs = SMALLEST_DATASET_EXHAUSTED"
  from rbs_stop_stable[OF a] m
  have fp: "RandomizedBatchSamplerIterator_next (w', rbs') = Some (Inl StopIteration, w', rbs')"
    by simp
  have "\<exists>s'. pull RandomizedBatchSamplerIterator_next n (w', rbs')
          = Some (replicate n (Inl StopIteration), s') \<and> s' = (w', rbs')"
    by (rule pull_stable[where Q = "\<lambda>s. s = (w', rbs')"]) (simp_all add: fp)
  then show "pull RandomizedBatchSamplerIterator_next n (w', rbs')
        = Some (replicate n (Inl StopIteration), w', rbs')" by simp
qed

text \<open>
  Claim C10.  The claim: for every iterator of the four strategies, once a \<open>next\<close> call
  has signalled the end of the sequence, every later call signals it too.
  The Round-Robin iterator under \<open>SMALLEST_DATASET_EXHAUSTED\<close> breaks it.  Lines 183--188
  raise \<open>StopIteration\<close> without recording the exhausted source in
  \<open>finished_dataloaders\<close>, so the next call moves the cycle on and returns a batch of
  another source.  Over \<open>a\<close> (one batch) and \<open>b\<close> (three batches) the third call signals
  the end of the sequence and the fourth returns the second batch of \<open>b\<close>.  The docstring
  of the strategy says that this mode "stops iteration once the smallest dataset has been
  exhausted", and the Weighted-Sampler iterator, under the same mode and over the same
  sources, marks the exhausted source and keeps signalling the end: the second part of
  the statement.
\<close>

theorem smallest_round_robin_resumes_after_end:
  "(case RoundRobinIterator_init example_sources
           \<lparr>rr_stopping_mechanism = SMALLEST_DATASET_EXHAUSTED, rr_iteration_order = None\<rparr> of
      Inl e \<Rightarrow> None
    | Inr self \<Rightarrow> map_option (map (map_sum id fst) \<circ> fst) (pull RoundRobinIterator_next 4 self))
   = Some [Inr ''a'', Inr ''b'', Inl StopIteration, Inr ''b'']
 \<and> (case RandomizedBatchSamplerIterator_init example_env example_sources
           \<lparr>weights = None, rbs_stopping_mechanism = SMALLEST_DATASET_EXHAUSTED,
            enforce_same_loader_across_ranks = False\<rparr> of
      (Inl e, w) \<Rightarrow> None
    | (Inr self, w) \<Rightarrow>
        map_option (map (map_sum id fst) \<circ> fst) (pull RandomizedBatchSamplerIterator_next 4 (w, self)))
   = Some [Inr ''a'', Inl StopIteration, Inl StopIteration, Inl StopIteration]"
proof -
  let ?st = "\<lambda>its marks. \<lparr>rbs_individual_dataloaders = example_sources,
       rbs_individual_iterators = its, iterator_names = [''a'', ''b''],
       iterator_weights = None, iterator_is_exhausted = marks,
       stopping_mechanism = SMALLEST_DATASET_EXHAUSTED, enforce_same_loader = False,
       iterator_names_dict = [], process_group = None, rbs_iterators_finished = []\<rparr>"
  let ?b = "(''b'', \<lparr>pending = [10, 11, 12 :: nat], polls = 0\<rparr>)"
  let ?s0 = "?st [(''a'', \<lparr>pending = [0], polls = 0\<rparr>), ?b] [False, False]"
  let ?s1 = "?st [(''a'', \<lparr>pending = [], polls = 1\<rparr>), ?b] [False, False]"
  let ?s2 = "?st [(''a'', \<lparr>pending = [], polls = 2\<rparr>), ?b] [True, False]"
  let ?w = "\<lambda>p. example_env\<lparr>rand_pos := p\<rparr>"
  have rr: "(case RoundRobinIterator_init example_sources
           \<lparr>rr_stopping_mechanism = SMALLEST_DATASET_EXHAUSTED, rr_iteration_order = None\<rparr> of
      Inl e \<Rightarrow> None
    | Inr self \<Rightarrow> map_option (map (map_sum id fst) \<circ> fst) (pull RoundRobinIterator_next 4 self))
   = Some [Inr ''a'', Inr ''b'', Inl StopIteration, Inr ''b'']"
    by (simp add: example_sources_def RoundRobinIterator_init_def make_iterators_def
        order_or_keys_def iter_src_def RoundRobinIterator_next.simps next_unfinished.simps
        next_handle_def numeral_eq_Suc)
  have init: "RandomizedBatchSamplerIterator_init example_env example_sources
           \<lparr>weights = None, rbs_stopping_mechanism = SMALLEST_DATASET_EXHAUSTED,
            enforce_same_loader_across_ranks = False\<rparr> = (Inr ?s0, example_env)"
    by (simp add: example_sources_def RandomizedBatchSamplerIterator_init_def
        make_iterators_def iter_src_def numeral_2_eq_2)
  have pick: "random_choices (?w p) [''a'', ''b''] None = (Inr ''a'', ?w (Suc p))" for p
    by (simp add: random_choices_def random_unit_def example_env_def)
  have n1: "RandomizedBatchSamplerIterator_next (example_env, ?s0) = Some (Inr (''a'', 0), ?w 1, ?s1)"
    using pick[of 0]
    by (subst RandomizedBatchSamplerIterator_next.simps)
       (simp add: rbs_candidates_def rbs_same_loader_def next_handle_def example_env_def)
  have n2: "RandomizedBatchSamplerIterator_next (?w 1, ?s1) = Some (Inl StopIteration, ?w 2, ?s2)"
    using pick[of 1]
    by (subst RandomizedBatchSamplerIterator_next.simps,
        subst RandomizedBatchSamplerIterator_next.simps)
       (simp add: rbs_candidates_def rbs_same_loader_def next_handle_def example_env_def
          numeral_2_eq_2)
  have n3: "RandomizedBatchSamplerIterator_next (?w 2, ?s2) = Some (Inl StopIteration, ?w 2, ?s2)"
    by (rule rbs_next_ended) simp
  have four: "(4 :: nat) = Suc (Suc (Suc (Suc 0)))" by simp
  have "pull RandomizedBatchSamplerIterator_next 4 (example_env, ?s0)
      = Some ([Inr (''a'', 0), Inl StopIteration, Inl StopIteration, Inl StopIteration], ?w 2, ?s2)"
    by (simp only: four pull.simps n1 n2 n3 option.case prod.case)
  with init have "(case RandomizedBatchSamplerIterator_init example_env example_sources
           \<lparr>weights = None, rbs_stopping_mechanism = SMALLEST_DATASET_EXHAUSTED,
            enforce_same_loader_across_ranks = False\<rparr> of
      (Inl e, w) \<Rightarrow> None
    | (Inr self, w) \<Rightarrow>
        map_option (map (map_sum id fst) \<circ> fst) (pull RandomizedBatchSamplerIterator_next 4 (w, self)))
   = Some [Inr ''a'', Inl StopIteration, Inl StopIteration, Inl StopIteration]"
    by simp
  with rr show ?thesis by (rule conjI)
qed

subsection \<open>Restarting sources\<close>










subsection \<open>The population of the random choice\<close>


















subsection \<open>Sources that are finished\<close>















subsection \<open>The Round-Robin run under \<open>ALL_DATASETS_EXHAUSTED\<close>\<close>
























end
